theory Spec2Isabelle
  imports Main
begin

section \<open>grsync: the task wrapper around an rsync process (task.go)\<close>

text \<open>
  Go strings and byte slices are sequences of bytes: they are modelled as \<open>string\<close>
  (a list of 8-bit characters). Go's \<open>int\<close> is modelled as \<open>int\<close>; the only place
  where its 64-bit range matters is \<open>strconv.Atoi\<close>, where the clamping is written out.
\<close>

subsection \<open>Bytes and errors\<close>

definition LF :: char where
  "LF = CHR 0x0A"

definition CR :: char where
  "CR = CHR 0x0D"

text \<open>Go's \<open>error\<close> values; \<open>None\<close> of \<open>error option\<close> is \<open>nil\<close>.\<close>

datatype error = Error string

subsection \<open>The line framer: \<open>scanLines\<close>\<close>

text \<open>
  \<open>bytes.IndexAny(data, chars)\<close>: the index of the first byte of \<open>data\<close> that occurs
  in \<open>chars\<close> (an ASCII set here), or \<open>-1\<close>.
\<close>

fun IndexAny :: "string \<Rightarrow> string \<Rightarrow> int" where
  "IndexAny [] chars = -1"
| "IndexAny (c # cs) chars =
     (if c \<in> set chars then 0
      else (let i = IndexAny cs chars in if i < 0 then -1 else i + 1))"

text \<open>
  \<open>scanLines(data, atEOF)\<close> returns \<open>(advance, token, err)\<close>. A \<open>nil\<close> token is
  \<open>None\<close>; the empty, non-nil slice \<open>data[0:0]\<close> is \<open>Some []\<close>.
\<close>

definition scanLines :: "string \<Rightarrow> bool \<Rightarrow> int \<times> string option \<times> error option" where
  "scanLines data atEOF =
     (if atEOF \<and> length data = 0 then (0, None, None)
      else
        (let i = IndexAny data [CR, LF] in
         if i \<ge> 0 then
           (if data ! nat i = LF then (i + 1, Some (take (nat i) data), None)
            else
              (let advance = i + 1;
                   advance = (if int (length data) > i + 1 \<and> data ! nat (i + 1) = LF
                              then advance + 1 else advance)
               in (advance, Some (take (nat i) data), None)))
         else if atEOF then (int (length data), Some data, None)
         else (0, None, None)))"

text \<open>Facts about \<open>IndexAny\<close> and \<open>scanLines\<close> that the definitions below rely on.\<close>

lemma IndexAny_range: "-1 \<le> IndexAny data chars \<and> IndexAny data chars < int (length data)"
  by (induction data) (auto simp: Let_def)

lemma IndexAny_none: "IndexAny data chars < 0 \<Longrightarrow> set data \<inter> set chars = {}"
  by (induction data) (auto simp: Let_def split: if_splits)

lemma IndexAny_prefix:
  "0 \<le> IndexAny data chars \<Longrightarrow> set (take (nat (IndexAny data chars)) data) \<inter> set chars = {}"
proof (induction data)
  case Nil
  then show ?case by simp
next
  case (Cons c cs)
  show ?case
  proof (cases "c \<in> set chars")
    case True
    then show ?thesis by simp
  next
    case False
    with Cons.prems have nn: "0 \<le> IndexAny cs chars"
      by (simp add: Let_def split: if_splits)
    with False have "IndexAny (c # cs) chars = IndexAny cs chars + 1"
      by (simp add: Let_def)
    moreover have "nat (IndexAny cs chars + 1) = Suc (nat (IndexAny cs chars))"
      using nn by simp
    ultimately show ?thesis
      using Cons.IH [OF nn] False by simp
  qed
qed

lemma IndexAny_hit:
  "0 \<le> IndexAny data chars \<Longrightarrow> data ! nat (IndexAny data chars) \<in> set chars"
proof (induction data)
  case Nil
  then show ?case by simp
next
  case (Cons c cs)
  show ?case
  proof (cases "c \<in> set chars")
    case True
    then show ?thesis by simp
  next
    case False
    with Cons.prems have nn: "0 \<le> IndexAny cs chars"
      by (simp add: Let_def split: if_splits)
    with False have "IndexAny (c # cs) chars = IndexAny cs chars + 1"
      by (simp add: Let_def)
    moreover have "nat (IndexAny cs chars + 1) = Suc (nat (IndexAny cs chars))"
      using nn by simp
    ultimately show ?thesis
      using Cons.IH [OF nn] by simp
  qed
qed

lemma scanLines_token_advance:
  "scanLines buf e = (a, Some t, err) \<Longrightarrow> 1 \<le> a \<and> a \<le> int (length buf)"
  using IndexAny_range [of buf "[CR, LF]"]
  by (cases buf) (auto simp: scanLines_def Let_def Suc_le_eq split: if_splits)

subsection \<open>The scanner loop of \<open>bufio.Scanner\<close> around \<open>scanLines\<close>\<close>

text \<open>
  \<open>processStdout\<close> reads its pipe through a \<open>bufio.Scanner\<close> whose split function is
  \<open>scanLines\<close>. The pipe is modelled by the byte sequences that its successive
  \<open>Read\<close> calls return (\<open>chunks\<close>); after the last one \<open>Read\<close> reports the end of
  the stream (or, on a closed pipe, an error), which the scanner passes to the split
  function as \<open>atEOF\<close>. \<open>buf\<close> is the data read and not yet consumed. As in
  \<open>Scanner.Scan\<close>:
  \<^item> the split function is called when the buffer is not empty or the end was reached;
  \<^item> an error, a negative advance or an advance beyond the buffer stops the scan;
  \<^item> a non-nil token is delivered and the buffer advanced;
  \<^item> otherwise the scan ends at the end of the stream, fails with \<open>ErrTooLong\<close> when the
    buffer holds \<open>MaxScanTokenSize\<close> bytes, or reads on.
  The result is the sequence of tokens \<open>scanner.Text()\<close> yields, one per successful
  \<open>scanner.Scan()\<close>.
\<close>

definition maxTokenSize :: int where
  "maxTokenSize = 64 * 1024"

function Scan :: "string \<Rightarrow> bool \<Rightarrow> string list \<Rightarrow> string list" where
  "Scan buf atEOF chunks =
     (case (if buf \<noteq> [] \<or> atEOF then scanLines buf atEOF else (0, None, None)) of
        (advance, token, err) \<Rightarrow>
          if err \<noteq> None \<or> advance < 0 \<or> advance > int (length buf) then []
          else
            (case token of
               Some t \<Rightarrow> t # Scan (drop (nat advance) buf) atEOF chunks
             | None \<Rightarrow>
                 if atEOF then []
                 else if int (length (drop (nat advance) buf)) \<ge> maxTokenSize then []
                 else
                   (case chunks of
                      [] \<Rightarrow> Scan (drop (nat advance) buf) True []
                    | c # cs \<Rightarrow> Scan (drop (nat advance) buf @ c) False cs)))"
  by pat_completeness auto
termination
  by (relation "measures [\<lambda>(buf, atEOF, chunks). length chunks + (if atEOF then 0 else 1),
                        \<lambda>(buf, atEOF, chunks). length buf]")
     (auto split: if_splits dest!: scanLines_token_advance [OF sym])

subsection \<open>The task and its state\<close>

text \<open>
  The type \<open>Rsync\<close> (the process handle) is not part of \<open>task.go\<close>. \<open>Run\<close> only
  calls its four methods, so the handle is modelled by what these calls do in one run:
  the error each of them returns (\<open>None\<close> for \<open>nil\<close>), the byte sequences the reads
  of the stdout pipe return, and the bytes of the stderr pipe.
\<close>

record Rsync =
  StderrPipe_err :: "error option"
  StdoutPipe_err :: "error option"
  Start_err :: "error option"
  Wait_err :: "error option"
  stdout_reads :: "string list"
  stderr_bytes :: string

record State =
  TimeRemaining :: string
  DownloadedTotal :: string
  Speed :: string
  Progress :: int

record Log =
  Stderr :: string
  Stdout :: string

text \<open>The mutex of \<open>Task\<close> has no content in a sequential model and is left out.\<close>

record Task =
  rsync :: Rsync
  state :: State
  log :: Log

text \<open>
  \<open>NewTask\<close> builds the process handle from its arguments (code outside \<open>task.go\<close>) and
  starts with a zero \<open>State\<close> and \<open>Log\<close>; the handle is a parameter here.
\<close>

definition NewTask :: "Rsync \<Rightarrow> Task" where
  "NewTask r =
     \<lparr>rsync = r,
      state = \<lparr>TimeRemaining = [], DownloadedTotal = [], Speed = [], Progress = 0\<rparr>,
      log = \<lparr>Stderr = [], Stdout = []\<rparr>\<rparr>"

text \<open>The methods \<open>State()\<close> and \<open>Log()\<close>: copies of the two structs.\<close>

definition Task_State :: "Task \<Rightarrow> State" where
  "Task_State t = state t"


subsection \<open>Go's \<open>regexp\<close>: the fragment the patterns of \<open>task.go\<close> use\<close>

text \<open>
  Go's \<open>regexp\<close> returns the leftmost match and, among the matches starting there, the
  one a backtracking search finds first. The patterns of \<open>task.go\<close> are built from
  single ASCII characters and classes, \<open>.\<close>, \<open>^\<close>, concatenation, capturing groups and
  the greedy repetitions \<open>*\<close>, \<open>+\<close> and \<open>{n}\<close>; the operators carry the names of Go's
  \<open>regexp/syntax\<close>.
\<close>

datatype regex =
    OpEmptyMatch
  | OpCharClass "char list"
  | OpAnyCharNotNL
  | OpBeginText
  | OpConcat regex regex
  | OpStar regex
  | OpCapture nat regex

text \<open>\<open>x+\<close> is \<open>xx*\<close> and \<open>x{n}\<close> is \<open>n\<close> copies of \<open>x\<close>.\<close>

definition OpPlus :: "regex \<Rightarrow> regex" where
  "OpPlus r = OpConcat r (OpStar r)"

fun OpRepeat :: "nat \<Rightarrow> regex \<Rightarrow> regex" where
  "OpRepeat 0 r = OpEmptyMatch"
| "OpRepeat (Suc n) r = OpConcat r (OpRepeat n r)"

fun Concats :: "regex list \<Rightarrow> regex" where
  "Concats [] = OpEmptyMatch"
| "Concats [r] = r"
| "Concats (r # rs) = OpConcat r (Concats rs)"

definition Lit :: "char \<Rightarrow> regex" where
  "Lit c = OpCharClass [c]"

fun NumSubexp :: "regex \<Rightarrow> nat" where
  "NumSubexp (OpConcat a b) = max (NumSubexp a) (NumSubexp b)"
| "NumSubexp (OpStar a) = NumSubexp a"
| "NumSubexp (OpCapture k a) = max k (NumSubexp a)"
| "NumSubexp _ = 0"

text \<open>
  The text is matched rune by rune. \<open>DecodeRune_size\<close> is the width in bytes that
  \<open>utf8.DecodeRuneInString\<close> reports for the rune at the head of \<open>s\<close>: 0 on the empty
  string, 1 for an ASCII byte and for a byte that does not start a well-formed
  encoding, else the length of the encoding.
\<close>

definition DecodeRune_size :: "string \<Rightarrow> nat" where
  "DecodeRune_size s =
     (case s of
        [] \<Rightarrow> 0
      | c0 # t \<Rightarrow>
          (let s0 = (of_char c0 :: nat) in
           if s0 < 0x80 \<or> s0 < 0xC2 \<or> 0xF4 < s0 then 1
           else
             (let sz = (if s0 < 0xE0 then 2 else if s0 < 0xF0 then 3 else 4 :: nat);
                  lo = (if s0 = 0xE0 then 0xA0 else if s0 = 0xF0 then 0x90 else 0x80 :: nat);
                  hi = (if s0 = 0xED then 0x9F else if s0 = 0xF4 then 0x8F else 0xBF :: nat)
              in if length s < sz then 1
                 else if of_char (s ! 1) < lo \<or> hi < of_char (s ! 1) then 1
                 else if sz \<le> 2 then 2
                 else if (of_char (s ! 2) :: nat) < 0x80 \<or> 0xBF < (of_char (s ! 2) :: nat) then 1
                 else if sz \<le> 3 then 3
                 else if (of_char (s ! 3) :: nat) < 0x80 \<or> 0xBF < (of_char (s ! 3) :: nat) then 1
                 else 4)))"

lemma DecodeRune_size_range:
  "s \<noteq> [] \<Longrightarrow> 1 \<le> DecodeRune_size s \<and> DecodeRune_size s \<le> length s"
  by (cases s) (auto simp: DecodeRune_size_def Let_def Suc_le_eq)

text \<open>
  A thread of the search is the offset reached in the text, the text from there on, and
  the groups captured so far (the latest first). \<open>run re th\<close> lists the threads with
  which \<open>re\<close> can finish when started in \<open>th\<close>, in the order in which a backtracking
  search reaches them: a greedy star tries one more iteration before it stops. An
  iteration of a star that consumes nothing is not repeated (every starred expression of
  \<open>task.go\<close> consumes a character).
\<close>

type_synonym thread = "nat \<times> string \<times> (nat \<times> string) list"

fun run :: "regex \<Rightarrow> thread \<Rightarrow> thread list" where
  "run OpEmptyMatch th = [th]"
| "run (OpCharClass cs) (p, s, cap) =
     (case s of [] \<Rightarrow> [] | c # s' \<Rightarrow> if c \<in> set cs then [(p + 1, s', cap)] else [])"
| "run OpAnyCharNotNL (p, s, cap) =
     (case s of
        [] \<Rightarrow> []
      | c # s' \<Rightarrow>
          if c = LF then [] else [(p + DecodeRune_size s, drop (DecodeRune_size s) s, cap)])"
| "run OpBeginText (p, s, cap) = (if p = 0 then [(p, s, cap)] else [])"
| "run (OpConcat a b) th = concat (map (run b) (run a th))"
| "run (OpStar a) (p, s, cap) =
     concat (map (\<lambda>th'. if length (fst (snd th')) < length s then run (OpStar a) th' else [])
                 (run a (p, s, cap)))
     @ [(p, s, cap)]"
| "run (OpCapture k a) (p, s, cap) =
     map (\<lambda>(p', s', cap'). (p', s', (k, take (p' - p) s) # cap')) (run a (p, s, cap))"

lemma run_suffix:
  "(p', s', cap') \<in> set (run re (p, s, cap)) \<Longrightarrow>
     p \<le> p' \<and> p' - p \<le> length s \<and> s' = drop (p' - p) s"
proof (induction re "(p, s, cap)" arbitrary: p s cap p' s' cap' rule: run.induct)
  case (1 p s cap)
  then show ?case by simp
next
  case (2 cs p s cap)
  then show ?case by (auto split: list.splits if_splits)
next
  case (3 p s cap)
  then show ?case
    using DecodeRune_size_range [of s] by (auto split: list.splits if_splits)
next
  case (4 p s cap)
  then show ?case by (auto split: if_splits)
next
  case (5 a b p s cap)
  from "5.prems" obtain q t c where
    m: "(q, t, c) \<in> set (run a (p, s, cap))" and n: "(p', s', cap') \<in> set (run b (q, t, c))"
    by auto
  from "5.hyps"(1) [OF m] have a: "p \<le> q" "q - p \<le> length s" "t = drop (q - p) s"
    by auto
  from "5.hyps"(2) [OF m n] have b: "q \<le> p'" "p' - q \<le> length t" "s' = drop (p' - q) t"
    by auto
  from a b show ?case by auto
next
  case (6 a p s cap)
  from "6.prems" consider
    (stop) "(p', s', cap') = (p, s, cap)" |
    (more) q t c where "(q, t, c) \<in> set (run a (p, s, cap))" "length t < length s"
      "(p', s', cap') \<in> set (run (OpStar a) (q, t, c))"
    by (auto split: if_splits)
  then show ?case
  proof cases
    case stop
    then show ?thesis by simp
  next
    case more
    from "6.hyps"(1) [OF more(1)] have a: "p \<le> q" "q - p \<le> length s" "t = drop (q - p) s"
      by auto
    from "6.hyps"(2) [OF more(1) _ more(3)] more(2)
    have b: "q \<le> p'" "p' - q \<le> length t" "s' = drop (p' - q) t"
      by auto
    from a b show ?thesis by auto
  qed
next
  case (7 k a p s cap)
  then show ?case by auto
qed

text \<open>
  The leftmost match at or after offset \<open>p\<close>, where \<open>s\<close> is the text from \<open>p\<close> on: the
  first thread of the first start position that has one, the start positions being
  tried rune by rune. The result is the start offset, the text from there on, and the
  final thread.
\<close>

function search :: "regex \<Rightarrow> nat \<Rightarrow> string \<Rightarrow> (nat \<times> string \<times> thread) option" where
  "search re p s =
     (case run re (p, s, []) of
        th # _ \<Rightarrow> Some (p, s, th)
      | [] \<Rightarrow>
          (if s = [] then None
           else search re (p + DecodeRune_size s) (drop (DecodeRune_size s) s)))"
  by pat_completeness auto
termination
proof (relation "measure (\<lambda>(re, p, s). length s)", goal_cases)
  case 1
  then show ?case by simp
next
  case (2 re p s)
  then show ?case using DecodeRune_size_range [of s] by simp
qed

declare search.simps [simp del]

lemma search_result:
  "search re p s = Some (b, t, (e, rest, cap)) \<Longrightarrow>
     p \<le> b \<and> b \<le> e \<and> e - b \<le> length t \<and> rest = drop (e - b) t
     \<and> t = drop (b - p) s \<and> b - p \<le> length s"
proof (induction re p s rule: search.induct)
  case (1 re p s)
  show ?case
  proof (cases "run re (p, s, [])")
    case Nil
    with "1.prems" have ne: "s \<noteq> []"
      and rec: "search re (p + DecodeRune_size s) (drop (DecodeRune_size s) s)
                = Some (b, t, (e, rest, cap))"
      by (auto simp: search.simps [of re p s] split: if_splits)
    from "1.IH" [OF Nil ne rec] DecodeRune_size_range [OF ne] show ?thesis
      by auto
  next
    case (Cons th ths)
    with "1.prems" have eq: "b = p" "t = s" "th = (e, rest, cap)"
      by (auto simp: search.simps [of re p s])
    from Cons eq have "(e, rest, cap) \<in> set (run re (p, s, []))" by simp
    from run_suffix [OF this] eq show ?thesis by simp
  qed
qed

text \<open>
  The strings of a match as \<open>FindStringSubmatch\<close> returns them: the text of the whole
  match, then that of each group, the empty string for a group that took no part.
\<close>

definition submatch :: "regex \<Rightarrow> nat \<times> string \<times> thread \<Rightarrow> string list" where
  "submatch re m =
     (case m of (b, t, (e, rest, cap)) \<Rightarrow>
        take (e - b) t #
        map (\<lambda>k. case map_of cap k of None \<Rightarrow> [] | Some g \<Rightarrow> g) [1..<Suc (NumSubexp re)])"

text \<open>
  The loop \<open>allMatches\<close> behind the \<open>FindAll\<close> functions: at most \<open>k\<close> successive
  matches, each search starting where the previous match ended; after an empty match the
  position moves on by one rune, and an empty match right after the previous match is
  not delivered.
\<close>

function allMatches :: "regex \<Rightarrow> nat \<Rightarrow> nat \<Rightarrow> string \<Rightarrow> int \<Rightarrow> string list list" where
  "allMatches re k pos s prevMatchEnd =
     (if k = 0 then []
      else
        (case search re pos s of
           None \<Rightarrow> []
         | Some (b, t, (e, rest, cap)) \<Rightarrow>
             (let accept = \<not> (e = pos \<and> int b = prevMatchEnd);
                  out = (if accept then [submatch re (b, t, (e, rest, cap))] else []);
                  k' = (if accept then k - 1 else k)
              in if e = pos then
                   (if DecodeRune_size s > 0
                    then out @ allMatches re k' (pos + DecodeRune_size s)
                                 (drop (DecodeRune_size s) s) (int e)
                    else out)
                 else out @ allMatches re k' e (drop (e - pos) s) (int e))))"
  by pat_completeness auto
termination
proof (relation "measure (\<lambda>(re, k, pos, s, prev). length s)", goal_cases)
  case 1
  then show ?case by simp
next
  case (2 re k pos s prev m b x t y e z rest cap)
  then have "s \<noteq> []" by (auto simp: DecodeRune_size_def)
  then show ?case using DecodeRune_size_range [of s] 2 by simp
next
  case (3 re k pos s prev m b x t y e z rest cap)
  then have "search re pos s = Some (b, t, (e, rest, cap))" by simp
  from search_result [OF this] 3 show ?case
    by auto
qed

declare allMatches.simps [simp del]

definition MatchString :: "regex \<Rightarrow> string \<Rightarrow> bool" where
  "MatchString re s = (search re 0 s \<noteq> None)"


definition FindAllStringSubmatch :: "regex \<Rightarrow> string \<Rightarrow> int \<Rightarrow> string list list" where
  "FindAllStringSubmatch re s n =
     allMatches re (if n < 0 then length s + 1 else nat n) 0 s (-1)"

definition FindAllString :: "regex \<Rightarrow> string \<Rightarrow> int \<Rightarrow> string list" where
  "FindAllString re s n = map hd (FindAllStringSubmatch re s n)"

text \<open>The classes \<^verbatim>\<open>\d\<close>, \<^verbatim>\<open>[A-Za-z]\<close> and \<^verbatim>\<open>\s\<close> (tab, line feed, form feed, carriage return, space).\<close>

definition digits :: "char list" where
  "digits = ''0123456789''"

definition letters :: "char list" where
  "letters = ''ABCDEFGHIJKLMNOPQRSTUVWXYZabcdefghijklmnopqrstuvwxyz''"

definition spaces :: "char list" where
  "spaces = [CHR 0x09, CHR 0x0A, CHR 0x0C, CHR 0x0D, CHR 0x20]"

subsection \<open>Go's \<open>strconv.Atoi\<close>, \<open>strings.TrimRight\<close>, \<open>strings.Split\<close> and \<open>ReadString\<close>\<close>

definition ErrSyntax :: error where
  "ErrSyntax = Error ''invalid syntax''"

definition ErrRange :: error where
  "ErrRange = Error ''value out of range''"

definition EOF :: error where
  "EOF = Error ''EOF''"

text \<open>
  \<open>strconv.ParseUint(s, 10, 64)\<close>: the loop over the bytes of \<open>s\<close> with its two
  overflow checks. A range error returns at once, before the rest of \<open>s\<close> is looked at.
\<close>

definition maxUint64 :: int where
  "maxUint64 = 2 ^ 64 - 1"

fun ParseUint_loop :: "int \<Rightarrow> string \<Rightarrow> int \<times> error option" where
  "ParseUint_loop n [] = (n, None)"
| "ParseUint_loop n (c # cs) =
     (if c \<notin> set digits then (0, Some ErrSyntax)
      else if n \<ge> maxUint64 div 10 + 1 then (maxUint64, Some ErrRange)
      else
        (let n1 = n * 10 + (of_char c - 48)
         in if n1 > maxUint64 then (maxUint64, Some ErrRange)
            else ParseUint_loop n1 cs))"

definition ParseUint :: "string \<Rightarrow> int \<times> error option" where
  "ParseUint s = (if s = [] then (0, Some ErrSyntax) else ParseUint_loop 0 s)"

text \<open>
  \<open>strconv.ParseInt(s, 10, 0)\<close> for the 64-bit \<open>int\<close>: a sign, then \<open>ParseUint\<close>; a
  value out of range is replaced by the nearest bound and reported as a range error.
\<close>

definition ParseInt :: "string \<Rightarrow> int \<times> error option" where
  "ParseInt s =
     (if s = [] then (0, Some ErrSyntax)
      else
        (let neg = (hd s = CHR ''-'');
             s' = (if hd s = CHR ''+'' \<or> hd s = CHR ''-'' then tl s else s)
         in case ParseUint s' of
              (un, err) \<Rightarrow>
                if err \<noteq> None \<and> err \<noteq> Some ErrRange then (0, err)
                else if \<not> neg \<and> un \<ge> 2 ^ 63 then (2 ^ 63 - 1, Some ErrRange)
                else if neg \<and> un > 2 ^ 63 then (- (2 ^ 63), Some ErrRange)
                else (if neg then - un else un, None)))"

text \<open>
  \<open>strconv.Atoi(s)\<close> returns what \<open>ParseInt(s, 10, 0)\<close> returns (its fast path for short
  strings computes the same value and error).
\<close>

definition Atoi :: "string \<Rightarrow> int \<times> error option" where
  "Atoi s = ParseInt s"

text \<open>\<open>strings.TrimRight(s, cutset)\<close> for an ASCII \<open>cutset\<close>.\<close>

definition TrimRight :: "string \<Rightarrow> string \<Rightarrow> string" where
  "TrimRight s cutset = rev (dropWhile (\<lambda>c. c \<in> set cutset) (rev s))"



text \<open>
  \<open>bufio.Reader.ReadString(delim)\<close> on a stream whose remaining bytes are \<open>s\<close>: the
  bytes up to and including the first \<open>delim\<close>; when the stream ends (or fails) before
  a \<open>delim\<close>, the bytes read so far together with the error. The third component is what
  remains of the stream.
\<close>

fun ReadString :: "string \<Rightarrow> char \<Rightarrow> string \<times> error option \<times> string" where
  "ReadString [] delim = ([], Some EOF, [])"
| "ReadString (c # cs) delim =
     (if c = delim then ([c], None, cs)
      else (case ReadString cs delim of (l, err, rest) \<Rightarrow> (c # l, err, rest)))"

lemma ReadString_rest:
  "ReadString s d = (l, None, rest) \<Longrightarrow> length rest < length s"
  by (induction s arbitrary: l) (auto split: if_splits prod.splits)

subsection \<open>The pattern extractors\<close>

text \<open>
  Modelled from the spec: the type \<open>matcher\<close>, its constructor \<open>newMatcher\<close> and its
  methods \<open>Match\<close>, \<open>Extract\<close>, \<open>All\<close> and \<open>ExtractAllStringSubmatch\<close> belong to the
  repository but not to \<open>task.go\<close>. A matcher is its compiled pattern.
  \<open>Match(line)\<close> is true iff the pattern matches anywhere in the line.
\<close>

definition Match :: "regex \<Rightarrow> string \<Rightarrow> bool" where
  "Match m data = MatchString m data"

text \<open>
  Modelled from the spec: \<open>Extract(line)\<close> returns the text of the first capture group
  of the first match, and the empty string if there is no match.
\<close>

definition Extract :: "regex \<Rightarrow> string \<Rightarrow> string" where
  "Extract m data =
     (case FindAllStringSubmatch m data 1 of
        [] \<Rightarrow> []
      | match # _ \<Rightarrow> (if length match < 2 then [] else match ! 1))"

text \<open>
  Modelled from the spec: \<open>All(line)\<close> (the spec's \<open>ExtractAll\<close>) returns the full text
  of all non-overlapping matches, in order.
\<close>

definition All :: "regex \<Rightarrow> string \<Rightarrow> string list" where
  "All m data = FindAllString m data (-1)"

text \<open>
  Modelled from the spec: \<open>ExtractAllStringSubmatch(line, limit)\<close> (the spec's
  \<open>ExtractAllGroups\<close>) returns up to \<open>limit\<close> match occurrences, each as its list of
  captured groups; as \<open>getTaskSpeed\<close> asks for two entries where the pattern has one
  group, the list is that of \<open>FindAllStringSubmatch\<close>, headed by the whole match.
\<close>

definition ExtractAllStringSubmatch :: "regex \<Rightarrow> string \<Rightarrow> int \<Rightarrow> string list list" where
  "ExtractAllStringSubmatch m data submatchCount = FindAllStringSubmatch m data submatchCount"

text \<open>The four patterns of \<open>processStdout\<close>: \<^verbatim>\<open>(\d+%)\<close>,\<close>

definition progressMatcher :: regex where
  "progressMatcher = OpCapture 1 (OpConcat (OpPlus (OpCharClass digits)) (Lit CHR ''%''))"

text \<open>\<^verbatim>\<open>(\d+\.\d+.{2}\/s)\<close>,\<close>

definition speedMatcher :: regex where
  "speedMatcher =
     OpCapture 1
       (Concats [OpPlus (OpCharClass digits), Lit CHR ''.'', OpPlus (OpCharClass digits),
                 OpRepeat 2 OpAnyCharNotNL, Lit CHR ''/'', Lit CHR ''s''])"

text \<open>\<^verbatim>\<open>^\s*(\d+.\d+[A-Za-z]*)\<close>,\<close>

definition totalMatcher :: regex where
  "totalMatcher =
     Concats [OpBeginText, OpStar (OpCharClass spaces),
              OpCapture 1
                (Concats [OpPlus (OpCharClass digits), OpAnyCharNotNL, OpPlus (OpCharClass digits),
                          OpStar (OpCharClass letters)])]"

text \<open>and \<^verbatim>\<open>(\d+:){2}\d+\<close>.\<close>

definition timeRemainingMatcher :: regex where
  "timeRemainingMatcher =
     OpConcat (OpRepeat 2 (OpCapture 1 (OpConcat (OpPlus (OpCharClass digits)) (Lit CHR '':''))))
              (OpPlus (OpCharClass digits))"


subsection \<open>The output processors\<close>

definition getTaskSpeed :: "string list list \<Rightarrow> string" where
  "getTaskSpeed data =
     (if length data < 1 \<or> length (data ! 0) < 2 then [] else data ! 0 ! 0)"

text \<open>
  The body of the loop of \<open>processStdout\<close> for one line \<open>logStr\<close>. \<open>None\<close> is the panic
  of indexing the empty result of \<open>All\<close>.
\<close>

definition handleLine :: "Task \<Rightarrow> string \<Rightarrow> Task option" where
  "handleLine task logStr =
     (let st = state task;
          st = (if Match totalMatcher logStr
                then st\<lparr>DownloadedTotal := Extract totalMatcher logStr\<rparr> else st);
          st = (if Match progressMatcher logStr
                then st\<lparr>Progress := fst (Atoi (TrimRight (Extract progressMatcher logStr) ''%''))\<rparr>
                else st)
      in case (if Match timeRemainingMatcher logStr
               then (case All timeRemainingMatcher logStr of
                       [] \<Rightarrow> None
                     | x # _ \<Rightarrow> Some (st\<lparr>TimeRemaining := x\<rparr>))
               else Some st) of
           None \<Rightarrow> None
         | Some st \<Rightarrow>
             (let st = (if Match speedMatcher logStr
                        then st\<lparr>Speed := getTaskSpeed (ExtractAllStringSubmatch speedMatcher logStr 2)\<rparr>
                        else st)
              in Some (task\<lparr>state := st,
                            log := (log task)\<lparr>Stdout := Stdout (log task) @ logStr @ [LF]\<rparr>\<rparr>)))"

fun processLines :: "Task \<Rightarrow> string list \<Rightarrow> Task option" where
  "processLines task [] = Some task"
| "processLines task (logStr # rest) =
     (case handleLine task logStr of None \<Rightarrow> None | Some task' \<Rightarrow> processLines task' rest)"

text \<open>\<open>processStdout\<close> on a pipe whose reads return \<open>stdout\<close>.\<close>

definition processStdout :: "Task \<Rightarrow> string list \<Rightarrow> Task option" where
  "processStdout task stdout = processLines task (Scan [] False stdout)"

text \<open>\<open>processStderr\<close> on a pipe that holds the bytes \<open>stderr\<close>.\<close>

function processStderr :: "Task \<Rightarrow> string \<Rightarrow> Task" where
  "processStderr task stderr =
     (case ReadString stderr LF of
        (logStr, err, rest) \<Rightarrow>
          if err \<noteq> None then task
          else processStderr
                 (task\<lparr>log := (log task)\<lparr>Stderr := Stderr (log task) @ logStr @ [LF]\<rparr>\<rparr>) rest)"
  by pat_completeness auto
termination
  by (relation "measure (\<lambda>(task, stderr). length stderr)")
     (auto dest!: ReadString_rest [OF sym])

subsection \<open>\<open>GetFileList\<close>\<close>



subsection \<open>\<open>Run\<close>\<close>

text \<open>
  \<open>Run\<close> is modelled by the calls it makes, in order, the task it leaves and the error
  it returns. The two processors run concurrently with \<open>Run\<close>; they write different
  fields of the task, and \<open>wg.Wait()\<close> returns when both have finished, so the task
  after \<open>WgWait\<close> is the one both processors have worked on. A pipe closed before the
  process was started delivers no bytes.
\<close>

datatype pipe = StdoutPipe | StderrPipe

datatype event =
    CallStderrPipe
  | CallStdoutPipe
  | Close pipe
  | GoProcessStdout
  | GoProcessStderr
  | WgAdd nat
  | CallStart
  | WgWait
  | CallWait

definition processors :: "Task \<Rightarrow> string list \<Rightarrow> string \<Rightarrow> Task option" where
  "processors t out err = map_option (\<lambda>t'. processStderr t' err) (processStdout t out)"

definition Run :: "Task \<Rightarrow> event list \<times> Task option \<times> error option" where
  "Run t =
     (case StderrPipe_err (rsync t) of
        Some err \<Rightarrow> ([CallStderrPipe], Some t, Some err)
      | None \<Rightarrow>
          (case StdoutPipe_err (rsync t) of
             Some err \<Rightarrow> ([CallStderrPipe, CallStdoutPipe, Close StderrPipe], Some t, Some err)
           | None \<Rightarrow>
               (let calls = [CallStderrPipe, CallStdoutPipe, GoProcessStdout, GoProcessStderr,
                             WgAdd 2, CallStart]
                in case Start_err (rsync t) of
                     Some err \<Rightarrow>
                       (calls @ [Close StdoutPipe, Close StderrPipe, WgWait],
                        processors t [] [], Some err)
                   | None \<Rightarrow>
                       (calls @ [WgWait, CallWait],
                        processors t (stdout_reads (rsync t)) (stderr_bytes (rsync t)),
                        Wait_err (rsync t)))))"

text \<open>
  A process handle whose calls all succeed and whose pipes deliver nothing; the examples
  below start from it.
\<close>

definition rsync0 :: Rsync where
  "rsync0 = \<lparr>StderrPipe_err = None, StdoutPipe_err = None, Start_err = None, Wait_err = None,
             stdout_reads = [], stderr_bytes = []\<rparr>"

section \<open>Properties\<close>

subsection \<open>The line framer\<close>

text \<open>
  C10. For every buffer and either value of the end-of-stream flag, \<open>scanLines\<close> returns
  a nil error, an advance count between 0 and the length of the buffer, and a token
  (the empty byte sequence when the token is nil) that holds neither a carriage return
  nor a line feed.
\<close>

theorem scanLines_safe:
  "snd (snd (scanLines data atEOF)) = None
   \<and> 0 \<le> fst (scanLines data atEOF)
   \<and> fst (scanLines data atEOF) \<le> int (length data)
   \<and> set (case fst (snd (scanLines data atEOF)) of None \<Rightarrow> [] | Some t \<Rightarrow> t) \<inter> {CR, LF} = {}"
proof -
  let ?i = "IndexAny data [CR, LF]"
  have rng: "-1 \<le> ?i \<and> ?i < int (length data)"
    by (rule IndexAny_range)
  show ?thesis
  proof (cases "0 \<le> ?i")
    case True
    have pre: "set (take (nat ?i) data) \<inter> {CR, LF} = {}"
      using IndexAny_prefix [OF True] by simp
    from True rng have "data \<noteq> []" by auto
    with True rng pre show ?thesis
      by (auto simp: scanLines_def Let_def)
  next
    case False
    then have "set data \<inter> {CR, LF} = {}"
      using IndexAny_none [of data "[CR, LF]"] by simp
    with False show ?thesis
      by (auto simp: scanLines_def Let_def)
  qed
qed

text \<open>
  C2. The stream \<open>a\r\nb\n\<close> holds two lines. When a read of the pipe ends between the
  carriage return and the line feed, \<open>scanLines\<close> is called on \<open>a\r\<close> before the end of
  the stream: it consumes the carriage return alone, the next call starts at the line
  feed, and the scanner delivers an empty third line between \<open>a\<close> and \<open>b\<close>. With both
  bytes in one read the lines are \<open>a\<close> and \<open>b\<close>.
\<close>

theorem scanLines_crlf_across_reads:
  "scanLines (''a'' @ [CR]) False = (2, Some ''a'', None)
   \<and> scanLines ([LF] @ ''b'' @ [LF]) False = (1, Some [], None)
   \<and> Scan [] False [''a'' @ [CR], [LF] @ ''b'' @ [LF]] = [''a'', [], ''b'']
   \<and> Scan [] False [''a'' @ [CR, LF] @ ''b'' @ [LF]] = [''a'', ''b'']"
  by code_simp

subsection \<open>The stdout processor\<close>

text \<open>The loop body does not panic: a line that matches has a first match.\<close>

lemma Match_All_nonempty: "Match m l \<Longrightarrow> All m l \<noteq> []"
proof -
  assume "Match m l"
  then obtain b t e rest cap where s: "search m 0 l = Some (b, t, (e, rest, cap))"
    by (auto simp: Match_def MatchString_def)
  show ?thesis
    unfolding All_def FindAllString_def FindAllStringSubmatch_def
    by (subst allMatches.simps) (simp add: s Let_def)
qed

lemma handleLine_total: "\<exists>t'. handleLine t l = Some t'"
proof (cases "Match timeRemainingMatcher l")
  case True
  from Match_All_nonempty [OF this] obtain x xs where "All timeRemainingMatcher l = x # xs"
    by (cases "All timeRemainingMatcher l") auto
  with True show ?thesis by (simp add: handleLine_def Let_def)
next
  case False
  then show ?thesis by (simp add: handleLine_def Let_def)
qed

lemma processLines_total: "\<exists>t'. processLines t ls = Some t'"
proof (induction ls arbitrary: t)
  case Nil
  then show ?case by simp
next
  case (Cons l ls)
  from handleLine_total [of t l] obtain t1 where "handleLine t l = Some t1" ..
  with Cons.IH [of t1] show ?case by simp
qed

lemma processStdout_total: "\<exists>t'. processStdout t chunks = Some t'"
  unfolding processStdout_def by (rule processLines_total)

text \<open>
  What the progress pattern extracts is a run of digits followed by \<open>%\<close>. The parse
  of the digits either succeeds with a value from 0 to \<open>2^63 - 1\<close>, or reports a range
  error and returns \<open>2^63 - 1\<close>; it cannot fail in another way.
\<close>

lemma search_run:
  "search re p s = Some (b, t, th) \<Longrightarrow> \<exists>ths. run re (b, t, []) = th # ths"
proof (induction re p s rule: search.induct)
  case (1 re p s)
  show ?case
  proof (cases "run re (p, s, [])")
    case Nil
    with "1.prems" have ne: "s \<noteq> []"
      and rec: "search re (p + DecodeRune_size s) (drop (DecodeRune_size s) s) = Some (b, t, th)"
      by (auto simp: search.simps [of re p s] split: if_splits)
    from "1.IH" [OF Nil ne rec] show ?thesis .
  next
    case (Cons th' ths)
    with "1.prems" show ?thesis
      by (auto simp: search.simps [of re p s])
  qed
qed

lemma run_star_class:
  "(p', s', cap') \<in> set (run (OpStar (OpCharClass cs)) (p, s, cap)) \<Longrightarrow>
     set (take (p' - p) s) \<subseteq> set cs"
proof (induction s arbitrary: p cap)
  case Nil
  then show ?case by simp
next
  case (Cons x xs)
  show ?case
  proof (cases "x \<in> set cs")
    case False
    with Cons.prems show ?thesis by simp
  next
    case True
    with Cons.prems consider
      (stop) "p' = p" |
      (more) "(p', s', cap') \<in> set (run (OpStar (OpCharClass cs)) (p + 1, xs, cap))"
      by auto
    then show ?thesis
    proof cases
      case stop
      then show ?thesis by simp
    next
      case more
      from run_suffix [OF more] have "p + 1 \<le> p'" by simp
      then have "p' - p = Suc (p' - (p + 1))" by simp
      then have "take (p' - p) (x # xs) = x # take (p' - (p + 1)) xs"
        by simp
      with Cons.IH [OF more] True show ?thesis by simp
    qed
  qed
qed

lemma run_digits_percent:
  assumes "(p', s', cap') \<in> set (run (OpConcat (OpPlus (OpCharClass cs)) (Lit c)) (p, s, cap))"
  shows "\<exists>ds. ds \<noteq> [] \<and> set ds \<subseteq> set cs \<and> take (p' - p) s = ds @ [c]"
proof -
  from assms obtain q t k where
    a: "(q, t, k) \<in> set (run (OpPlus (OpCharClass cs)) (p, s, cap))" and
    b: "(p', s', cap') \<in> set (run (Lit c) (q, t, k))"
    by auto
  from a obtain x xs where s: "s = x # xs" and x: "x \<in> set cs"
    and st: "(q, t, k) \<in> set (run (OpStar (OpCharClass cs)) (p + 1, xs, cap))"
    by (auto simp: OpPlus_def split: list.splits if_splits)
  from run_suffix [OF st] have q: "p + 1 \<le> q" "t = drop (q - (p + 1)) xs" "q - (p + 1) \<le> length xs"
    by auto
  from run_star_class [OF st] have ds: "set (take (q - (p + 1)) xs) \<subseteq> set cs" .
  from b obtain t' where t: "t = c # t'" and p': "p' = q + 1"
    by (auto simp: Lit_def split: list.splits if_splits)
  let ?n = "q - (p + 1)"
  have "p' - p = Suc (?n + 1)" using p' q(1) by simp
  then have "take (p' - p) s = x # take (?n + 1) xs"
    using s by simp
  also have "take (?n + 1) xs = take ?n xs @ take 1 (drop ?n xs)"
    by (rule take_add)
  also have "take 1 (drop ?n xs) = [c]"
    using q(2) t by (metis One_nat_def take0 take_Suc_Cons)
  finally have "take (p' - p) s = (x # take ?n xs) @ [c]" by simp
  moreover have "set (x # take ?n xs) \<subseteq> set cs" using x ds by simp
  ultimately show ?thesis by blast
qed

lemma Extract_progressMatcher:
  assumes "Match progressMatcher l"
  shows "\<exists>ds. ds \<noteq> [] \<and> set ds \<subseteq> set digits \<and> Extract progressMatcher l = ds @ ''%''"
proof -
  define inner where "inner = OpConcat (OpPlus (OpCharClass digits)) (Lit CHR ''%'')"
  from assms obtain b t e rest cap where
    s: "search progressMatcher 0 l = Some (b, t, (e, rest, cap))"
    by (auto simp: Match_def MatchString_def)
  from search_run [OF s] obtain ths where
    "run (OpCapture 1 inner) (b, t, []) = (e, rest, cap) # ths"
    by (auto simp: progressMatcher_def inner_def)
  then obtain z zs where z: "run inner (b, t, []) = z # zs"
    and fz: "(case z of (p', s', cap') \<Rightarrow> (p', s', (1, take (p' - b) t) # cap')) = (e, rest, cap)"
    by (auto simp: map_eq_Cons_conv)
  obtain p' s' cap' where zd: "z = (p', s', cap')" by (cases z) auto
  from z zd have i: "(p', s', cap') \<in> set (run inner (b, t, []))" by simp
  from fz zd have c: "cap = (1, take (p' - b) t) # cap'" by auto
  have n: "NumSubexp progressMatcher = 1" by code_simp
  have "\<exists>rest'. allMatches progressMatcher 1 0 l (-1)
          = submatch progressMatcher (b, t, (e, rest, cap)) # rest'"
    by (subst allMatches.simps) (simp add: s Let_def)
  then have "Extract progressMatcher l = take (p' - b) t"
    by (auto simp: Extract_def FindAllStringSubmatch_def submatch_def n c)
  with run_digits_percent [OF i [unfolded inner_def]] show ?thesis by auto
qed

lemma digit_value: "c \<in> set digits \<Longrightarrow> 0 \<le> (of_char c :: int) - 48"
  by (auto simp: digits_def)

lemma ParseUint_loop_digits:
  "set ds \<subseteq> set digits \<Longrightarrow> 0 \<le> n \<Longrightarrow>
     (\<exists>v. 0 \<le> v \<and> ParseUint_loop n ds = (v, None))
     \<or> ParseUint_loop n ds = (maxUint64, Some ErrRange)"
proof (induction ds arbitrary: n)
  case Nil
  then show ?case by simp
next
  case (Cons c cs)
  from Cons.prems have c: "c \<in> set digits" and cs: "set cs \<subseteq> set digits" by auto
  from digit_value [OF c] Cons.prems(2) have "0 \<le> n * 10 + (of_char c - 48)" by simp
  from Cons.IH [OF cs this] c show ?case by (auto simp: Let_def)
qed

lemma Atoi_digits:
  assumes "ds \<noteq> []" "set ds \<subseteq> set digits"
  shows "(\<exists>v. 0 \<le> v \<and> v < 2 ^ 63 \<and> Atoi ds = (v, None))
         \<or> Atoi ds = (2 ^ 63 - 1, Some ErrRange)"
proof -
  from assms have "hd ds \<in> set digits" by (cases ds) auto
  then have sign: "hd ds \<noteq> CHR ''-''" "hd ds \<noteq> CHR ''+''"
    by (auto simp: digits_def)
  from ParseUint_loop_digits [OF assms(2), of 0] assms(1) sign show ?thesis
    by (auto simp: Atoi_def ParseInt_def ParseUint_def Let_def maxUint64_def ErrRange_def ErrSyntax_def)
qed

lemma TrimRight_digits_percent:
  assumes "ds \<noteq> []" "set ds \<subseteq> set digits"
  shows "TrimRight (ds @ ''%'') ''%'' = ds"
proof -
  from assms(1) obtain ys y where ds: "ds = ys @ [y]"
    by (cases ds rule: rev_cases) auto
  with assms(2) have "y \<in> set digits" by simp
  then have "y \<noteq> CHR ''%''" by (auto simp: digits_def)
  with ds show ?thesis by (simp add: TrimRight_def)
qed

lemma progress_token_parse:
  assumes "Match progressMatcher l"
  shows "(\<exists>v. 0 \<le> v \<and> v < 2 ^ 63
              \<and> Atoi (TrimRight (Extract progressMatcher l) ''%'') = (v, None))
         \<or> Atoi (TrimRight (Extract progressMatcher l) ''%'') = (2 ^ 63 - 1, Some ErrRange)"
proof -
  from Extract_progressMatcher [OF assms] obtain ds where
    ds: "ds \<noteq> []" "set ds \<subseteq> set digits" "Extract progressMatcher l = ds @ ''%''"
    by blast
  from Atoi_digits [OF ds(1,2)] TrimRight_digits_percent [OF ds(1,2)] ds(3) show ?thesis
    by simp
qed

text \<open>
  C1. Starting from the zero state, the stdout processor on a stream that consists of the
  line \<^verbatim>\<open>15.17G  10%   92.23MB/s    0:23:54\<close> (ended by the end of the stream or by a
  line feed) leaves a task whose \<open>State()\<close> is Progress 10, DownloadedTotal
  \<open>15.17G\<close>, Speed \<open>92.23MB/s\<close> and TimeRemaining \<open>0:23:54\<close>.
\<close>

theorem processStdout_progress_line:
  "map_option Task_State
     (processStdout (NewTask r) [''15.17G  10%   92.23MB/s    0:23:54''])
   = Some \<lparr>TimeRemaining = ''0:23:54'', DownloadedTotal = ''15.17G'',
            Speed = ''92.23MB/s'', Progress = 10\<rparr>
   \<and> map_option Task_State
       (processStdout (NewTask r) [''15.17G  10%   92.23MB/s    0:23:54'' @ [LF]])
     = Some \<lparr>TimeRemaining = ''0:23:54'', DownloadedTotal = ''15.17G'',
              Speed = ''92.23MB/s'', Progress = 10\<rparr>"
  by code_simp




text \<open>
  C4. The line \<^verbatim>\<open>report_250%.txt\<close> (a file name, as rsync prints it) matches the
  progress pattern with a token that parses, and the stdout processor sets Progress to
  250, outside the range 0 to 100.
\<close>

theorem progress_out_of_range:
  "Match progressMatcher ''report_250%.txt''
   \<and> Atoi (TrimRight (Extract progressMatcher ''report_250%.txt'') ''%'') = (250, None)
   \<and> map_option (\<lambda>t'. Progress (Task_State t'))
        (processStdout (NewTask rsync0) [''report_250%.txt'' @ [LF]])
     = Some 250"
  by code_simp

text \<open>
  C8. For every stdout line that the speed pattern does not match, the stdout processor
  finishes the line and Speed has the value it had before.
\<close>

theorem handleLine_keeps_speed:
  "\<not> Match speedMatcher l \<Longrightarrow>
     map_option (\<lambda>t'. Speed (state t')) (handleLine t l) = Some (Speed (state t))"
proof -
  assume nm: "\<not> Match speedMatcher l"
  from handleLine_total [of t l] obtain t' where h: "handleLine t l = Some t'" ..
  from h nm have "Speed (state t') = Speed (state t)"
    by (auto simp: handleLine_def Let_def split: if_splits list.splits option.splits)
  with h show ?thesis by simp
qed

theorem handleLine_keeps_speed_witness:
  "\<not> Match speedMatcher ''15.17G  10%''
   \<and> map_option (\<lambda>t'. Speed (state t'))
        (handleLine ((NewTask rsync0)\<lparr>state := (state (NewTask rsync0))\<lparr>Speed := ''92.23MB/s''\<rparr>\<rparr>)
           ''15.17G  10%'')
     = Some ''92.23MB/s''"
proof -
  let ?T = "(NewTask rsync0)\<lparr>state := (state (NewTask rsync0))\<lparr>Speed := ''92.23MB/s''\<rparr>\<rparr>"
  have h: "\<not> Match speedMatcher ''15.17G  10%''" by code_simp
  have k: "map_option (\<lambda>t'. Speed (state t')) (handleLine ?T ''15.17G  10%'')
           = Some (Speed (state ?T))"
    by (rule handleLine_keeps_speed [OF h])
  have sp: "Speed (state ?T) = ''92.23MB/s''" by simp
  from h k [unfolded sp] show ?thesis by (rule conjI)
qed

subsection \<open>The stderr processor\<close>

text \<open>
  C6. On the stderr stream \<open>rsync: error\npartial\<close> the log holds the first line followed
  by two line feeds (the one \<open>ReadString\<close> returns and the one appended), and the
  unterminated last line is not in the log.
\<close>

theorem processStderr_doubles_newline_drops_tail:
  "Stderr (log (processStderr (NewTask rsync0) (''rsync: error'' @ [LF] @ ''partial'')))
     = ''rsync: error'' @ [LF, LF]"
  by (simp add: NewTask_def LF_def EOF_def)

subsection \<open>The file list\<close>








subsection \<open>\<open>Run\<close>\<close>

text \<open>
  C7. If \<open>Start\<close> fails, \<open>Run\<close> closes the stdout and the stderr pipe, then waits
  for the two processors, and returns the error of \<open>Start\<close>; the task is as before.
  If the stdout pipe cannot be acquired, \<open>Run\<close> closes the stderr pipe and returns
  the error of the acquisition, without starting a processor or the process.
\<close>

theorem Run_failures:
  "(StderrPipe_err (rsync t) = None \<and> StdoutPipe_err (rsync t) = None
      \<and> Start_err (rsync t) = Some e \<longrightarrow>
      Run t = ([CallStderrPipe, CallStdoutPipe, GoProcessStdout, GoProcessStderr, WgAdd 2,
                CallStart, Close StdoutPipe, Close StderrPipe, WgWait], Some t, Some e))
   \<and> (StderrPipe_err (rsync t) = None \<and> StdoutPipe_err (rsync t) = Some e \<longrightarrow>
      Run t = ([CallStderrPipe, CallStdoutPipe, Close StderrPipe], Some t, Some e))"
  by (simp add: Run_def processors_def processStdout_def scanLines_def EOF_def)

theorem Run_failures_witness:
  "StderrPipe_err (rsync (NewTask (rsync0\<lparr>Start_err := Some (Error ''no such file'')\<rparr>))) = None
   \<and> StdoutPipe_err (rsync (NewTask (rsync0\<lparr>Start_err := Some (Error ''no such file'')\<rparr>))) = None
   \<and> Start_err (rsync (NewTask (rsync0\<lparr>Start_err := Some (Error ''no such file'')\<rparr>)))
       = Some (Error ''no such file'')
   \<and> Run (NewTask (rsync0\<lparr>Start_err := Some (Error ''no such file'')\<rparr>))
       = ([CallStderrPipe, CallStdoutPipe, GoProcessStdout, GoProcessStderr, WgAdd 2,
           CallStart, Close StdoutPipe, Close StderrPipe, WgWait],
          Some (NewTask (rsync0\<lparr>Start_err := Some (Error ''no such file'')\<rparr>)),
          Some (Error ''no such file''))
   \<and> StderrPipe_err (rsync (NewTask (rsync0\<lparr>StdoutPipe_err := Some (Error ''pipe'')\<rparr>))) = None
   \<and> StdoutPipe_err (rsync (NewTask (rsync0\<lparr>StdoutPipe_err := Some (Error ''pipe'')\<rparr>)))
       = Some (Error ''pipe'')
   \<and> Run (NewTask (rsync0\<lparr>StdoutPipe_err := Some (Error ''pipe'')\<rparr>))
       = ([CallStderrPipe, CallStdoutPipe, Close StderrPipe],
          Some (NewTask (rsync0\<lparr>StdoutPipe_err := Some (Error ''pipe'')\<rparr>)),
          Some (Error ''pipe''))"
proof -
  let ?a = "NewTask (rsync0\<lparr>Start_err := Some (Error ''no such file'')\<rparr>)"
  let ?b = "NewTask (rsync0\<lparr>StdoutPipe_err := Some (Error ''pipe'')\<rparr>)"
  have ha: "StderrPipe_err (rsync ?a) = None \<and> StdoutPipe_err (rsync ?a) = None
            \<and> Start_err (rsync ?a) = Some (Error ''no such file'')"
    by (simp add: NewTask_def rsync0_def)
  have hb: "StderrPipe_err (rsync ?b) = None \<and> StdoutPipe_err (rsync ?b) = Some (Error ''pipe'')"
    by (simp add: NewTask_def rsync0_def)
  from Run_failures [of ?a "Error ''no such file''"] ha
  have ra: "Run ?a = ([CallStderrPipe, CallStdoutPipe, GoProcessStdout, GoProcessStderr, WgAdd 2,
                CallStart, Close StdoutPipe, Close StderrPipe, WgWait], Some ?a,
                Some (Error ''no such file''))"
    by blast
  from Run_failures [of ?b "Error ''pipe''"] hb
  have rb: "Run ?b = ([CallStderrPipe, CallStdoutPipe, Close StderrPipe], Some ?b,
                      Some (Error ''pipe''))"
    by blast
  from ha hb ra rb show ?thesis
    by blast
qed

end
